theory Spec2Isabelle
  imports Main "HOL-Library.Word" "HOL-Library.List_Lexorder"
begin

unbundle bit_operations_syntax

section \<open>Machine types and the environment of fs.cpp\<close>

type_synonym u8 = "8 word"
type_synonym u16 = "16 word"
type_synonym u32 = "32 word"
type_synonym u64 = "64 word"

text \<open>\<^verbatim>\<open>#define CTRX_BUFSIZ (4 * 1024 * 1024)\<close>\<close>

definition CTRX_BUFSIZ :: nat where
  "CTRX_BUFSIZ = 4 * 1024 * 1024"

text \<open>
  The storage volume. A node is a plain file with its bytes or a directory. Nodes are keyed
  by their resolved path (the list of path components); the order of the association list
  is the order in which \<^verbatim>\<open>readdir\<close> enumerates.
\<close>

datatype node = File "u8 list" | Dir

datatype errcode = ENOENT | EEXIST | ENOTDIR | EISDIR | ENOTSUP | ECANCELED

text \<open>
  Everything outside the functions of fs.cpp that they read or change:
  \<^item> \<open>files\<close>: the volume;
  \<^item> \<open>errno\<close>: the last error code stored by this code or by a failed \<^verbatim>\<open>mkdir\<close>
    (codes left behind by failed probes in \<^verbatim>\<open>fsExists\<close> are not tracked);
  \<^item> \<open>prevProgress\<close>: the function-local \<^verbatim>\<open>static u32 prevProgress\<close> of fsShowProgress;
  \<^item> \<open>display\<close>: the calls of \<^verbatim>\<open>uiDisplayProgress\<close> made so far (operation, path, percentage);
  \<^item> \<open>ticks\<close>: the arguments \<open>(pos, totalSize)\<close> of every call of fsShowProgress so far;
  \<^item> \<open>buttonB\<close>: what \<^verbatim>\<open>hid::pressed(hid::BUTTON_B)\<close> will answer at the next polls
    (not pressed once the list is used up);
  \<^item> \<open>diskFree\<close>: how many more bytes \<^verbatim>\<open>fwrite\<close> can store;
  \<^item> \<open>heapFree\<close>: the largest block \<^verbatim>\<open>malloc\<close>/\<^verbatim>\<open>calloc\<close> can serve;
  \<^item> \<open>stackJunk\<close>: the indeterminate value found in an uninitialised \<^verbatim>\<open>st.st_size\<close>;
  \<^item> \<open>dotEntries\<close>: whether \<^verbatim>\<open>readdir\<close> of this platform lists \<^verbatim>\<open>.\<close> and \<^verbatim>\<open>..\<close>.
\<close>

record world =
  files :: "(string list \<times> node) list"
  errno :: errcode
  prevProgress :: u32
  display :: "(string \<times> string \<times> u32) list"
  ticks :: "(u64 \<times> u64) list"
  buttonB :: "bool list"
  diskFree :: nat
  heapFree :: nat
  stackJunk :: u32
  dotEntries :: bool

subsection \<open>Path resolution and the library calls\<close>

fun components :: "string \<Rightarrow> string \<Rightarrow> string list" where
  "components acc [] = [rev acc]"
| "components acc (c # cs) =
     (if c = CHR ''/'' then rev acc # components [] cs else components (c # acc) cs)"

definition walk :: "string list \<Rightarrow> string \<Rightarrow> string list" where
  "walk stack part =
     (if part = ''..'' then butlast stack
      else if part = [] \<or> part = ''.'' then stack
      else stack @ [part])"

definition resolve :: "string \<Rightarrow> string list" where
  "resolve path = foldl walk [] (components [] path)"

text \<open>The root directory always exists.\<close>

definition node_at :: "world \<Rightarrow> string \<Rightarrow> node option" where
  "node_at w path =
     (let k = resolve path in if k = [] then Some Dir else map_of (files w) k)"

text \<open>\<^verbatim>\<open>fopen(path, "r")\<close>: succeeds on a plain file only, and gives its bytes.\<close>

definition fopen_r :: "world \<Rightarrow> string \<Rightarrow> u8 list option" where
  "fopen_r w path = (case node_at w path of Some (File d) \<Rightarrow> Some d | _ \<Rightarrow> None)"

text \<open>\<^verbatim>\<open>opendir\<close> followed by \<^verbatim>\<open>readdir\<close> until it returns NULL: the entry names.\<close>

definition opendir :: "world \<Rightarrow> string \<Rightarrow> string list option" where
  "opendir w path =
     (case node_at w path of
        Some Dir \<Rightarrow>
          Some ((if dotEntries w then [''.'', ''..''] else []) @
                map (\<lambda>(k, n). last k)
                  (filter (\<lambda>(k, n). k \<noteq> [] \<and> butlast k = resolve path) (files w)))
      | _ \<Rightarrow> None)"

text \<open>\<^verbatim>\<open>stat\<close>: the size in bytes on success.\<close>

definition stat :: "world \<Rightarrow> string \<Rightarrow> nat option" where
  "stat w path =
     (case node_at w path of
        Some (File d) \<Rightarrow> Some (length d)
      | Some Dir \<Rightarrow> Some 0
      | None \<Rightarrow> None)"

definition parent_is_dir :: "world \<Rightarrow> string list \<Rightarrow> errcode option" where
  "parent_is_dir w k =
     (if butlast k = [] then None
      else case map_of (files w) (butlast k) of
             Some Dir \<Rightarrow> None
           | Some (File d) \<Rightarrow> Some ENOTDIR
           | None \<Rightarrow> Some ENOENT)"

text \<open>\<^verbatim>\<open>mkdir(path, 0777)\<close>: \<open>True\<close> stands for the return value 0.\<close>

definition mkdir :: "world \<Rightarrow> string \<Rightarrow> world \<times> bool" where
  "mkdir w path =
     (let k = resolve path in
      if node_at w path \<noteq> None then (w\<lparr>errno := EEXIST\<rparr>, False)
      else case parent_is_dir w k of
             Some e \<Rightarrow> (w\<lparr>errno := e\<rparr>, False)
           | None \<Rightarrow> (w\<lparr>files := files w @ [(k, Dir)]\<rparr>, True))"

text \<open>\<^verbatim>\<open>fopen(path, "wb")\<close>: creates the file or truncates it; \<open>True\<close> stands for non-NULL.\<close>

definition fopen_w :: "world \<Rightarrow> string \<Rightarrow> world \<times> bool" where
  "fopen_w w path =
     (let k = resolve path in
      case node_at w path of
        Some Dir \<Rightarrow> (w, False)
      | Some (File d) \<Rightarrow>
          (w\<lparr>files := map (\<lambda>(k', n). if k' = k then (k', File []) else (k', n)) (files w)\<rparr>, True)
      | None \<Rightarrow>
          (case parent_is_dir w k of
             Some e \<Rightarrow> (w, False)
           | None \<Rightarrow> (w\<lparr>files := files w @ [(k, File [])]\<rparr>, True)))"

text \<open>
  \<^verbatim>\<open>fwrite(buffer, 1, n, fd)\<close> on the stream opened on \<open>path\<close>: appends as many of the
  bytes as the volume can still take and returns their number.
\<close>

definition fwrite :: "world \<Rightarrow> string \<Rightarrow> u8 list \<Rightarrow> world \<times> nat" where
  "fwrite w path bytes =
     (let k = resolve path; n = min (length bytes) (diskFree w) in
      (w\<lparr>files := map (\<lambda>(k', nd). case nd of
                            File d \<Rightarrow> if k' = k then (k', File (d @ take n bytes)) else (k', nd)
                          | Dir \<Rightarrow> (k', nd)) (files w),
          diskFree := diskFree w - n\<rparr>, n))"

text \<open>\<^verbatim>\<open>fread(dst, 1, n, fp)\<close> at position \<open>pos\<close> of a stream over \<open>data\<close>: the bytes read.\<close>

definition fread :: "u8 list \<Rightarrow> nat \<Rightarrow> nat \<Rightarrow> u8 list" where
  "fread data pos n = take n (drop pos data)"

text \<open>\<^verbatim>\<open>malloc(n)\<close>, \<^verbatim>\<open>calloc(n, 1)\<close>: \<open>True\<close> stands for non-NULL.\<close>

definition malloc :: "world \<Rightarrow> nat \<Rightarrow> bool" where
  "malloc w n = (n \<le> heapFree w)"

text \<open>Writing \<open>bytes\<close> into a buffer from index \<open>at\<close> on; the buffer keeps its length.\<close>

definition store :: "u8 list \<Rightarrow> nat \<Rightarrow> u8 list \<Rightarrow> u8 list" where
  "store buf at bytes = take at buf @ bytes @ drop (at + length bytes) buf"

definition memmove :: "u8 list \<Rightarrow> nat \<Rightarrow> nat \<Rightarrow> nat \<Rightarrow> u8 list" where
  "memmove buf dst src n = store buf dst (take n (drop src buf))"

definition memset :: "u8 list \<Rightarrow> nat \<Rightarrow> u8 \<Rightarrow> nat \<Rightarrow> u8 list" where
  "memset buf at v n = store buf at (replicate n v)"

section \<open>PathQuery\<close>

definition fsIsDirectory :: "world \<Rightarrow> string \<Rightarrow> bool" where
  "fsIsDirectory w path = (opendir w path \<noteq> None)"

definition fsExists :: "world \<Rightarrow> string \<Rightarrow> bool" where
  "fsExists w path = (if fopen_r w path \<noteq> None then True else fsIsDirectory w path)"

text \<open>
  \<^verbatim>\<open>struct stat st; stat(path.c_str(), &st); return (u32) st.st_size;\<close>
  The return value of \<^verbatim>\<open>stat\<close> is not looked at: when the call fails, \<^verbatim>\<open>st\<close> is still
  uninitialised and the result is whatever the stack held.
\<close>

definition fsGetFileSize :: "world \<Rightarrow> string \<Rightarrow> u32" where
  "fsGetFileSize w path =
     (case stat w path of Some sz \<Rightarrow> of_nat sz | None \<Rightarrow> stackJunk w)"

section \<open>Progress reporting\<close>

definition fsShowProgress :: "world \<Rightarrow> string \<Rightarrow> string \<Rightarrow> u64 \<Rightarrow> u64 \<Rightarrow> world \<times> bool" where
  "fsShowProgress w operationStr pathStr pos totalSize =
     (let progress = (ucast ((pos * 100) div totalSize) :: u32);
          w1 = w\<lparr>ticks := ticks w @ [(pos, totalSize)]\<rparr>;
          w2 = (if prevProgress w1 \<noteq> progress
                then w1\<lparr>prevProgress := progress,
                        display := display w1 @ [(operationStr, pathStr, progress)]\<rparr>
                else w1)
      in case buttonB w2 of
           [] \<Rightarrow> (w2, True)
         | pressed # later \<Rightarrow> (w2\<lparr>buttonB := later\<rparr>, \<not> pressed))"

section \<open>WindowedStreamProvider: fsDataProvider\<close>

text \<open>
  What the provider does to the outside, in order: the \<^verbatim>\<open>fopen\<close>, every \<^verbatim>\<open>fread\<close>
  (file position, bytes requested), every call of \<^verbatim>\<open>onUpdate\<close> (the offset of the window
  and the buffer handed over) and every call of \<^verbatim>\<open>onLoop\<close>.
\<close>

datatype event = EvOpen string | EvRead nat nat | EvUpdate u32 "u8 list" | EvLoop u32

text \<open>
  The callbacks are closures: \<open>'c\<close> is the state they capture. \<^verbatim>\<open>onLoop(u32 &offset)\<close>
  answers and may change the offset; \<^verbatim>\<open>onUpdate(u8* data)\<close> reads the window.
\<close>

type_synonym 'c onLoop_t = "'c \<Rightarrow> u32 \<Rightarrow> bool \<times> u32 \<times> 'c"
type_synonym 'c onUpdate_t = "'c \<Rightarrow> u8 list \<Rightarrow> bool \<times> 'c"

record 'c stream =
  offset :: u32
  offsetPrev :: u32
  buffer :: "u8 list"
  result :: bool
  closure :: 'c
  events :: "event list"

text \<open>The two branches that refill the buffer (lines 144-160), with the read they issue.\<close>

definition refresh ::
  "u8 list \<Rightarrow> u32 \<Rightarrow> u32 \<Rightarrow> u32 \<Rightarrow> u32 \<Rightarrow> u8 list \<Rightarrow> u8 list \<times> event" where
  "refresh data fileSize buffSize off offPrev buf =
     (if off < offPrev then
        let dataEnd = off + buffSize;
            overlap = (if dataEnd > offPrev then dataEnd - offPrev else 0);
            b1 = memmove buf (unat buffSize - unat overlap) 0 (unat overlap);
            got = fread data (unat off) (unat (buffSize - overlap))
        in (store b1 0 got, EvRead (unat off) (unat (buffSize - overlap)))
      else
        let dataEnd = off + buffSize;
            dataEndPrev = offPrev + buffSize;
            overlap = (if dataEndPrev > off then dataEndPrev - off else 0);
            b1 = memmove buf 0 (unat buffSize - unat overlap) (unat overlap);
            b2 = (if dataEnd > fileSize
                  then memset b1 (unat overlap) 0 (unat (buffSize - overlap)) else b1);
            got = fread data (unat (off + overlap)) (unat (buffSize - overlap))
        in (store b2 (unat overlap) got,
            EvRead (unat (off + overlap)) (unat (buffSize - overlap))))"

text \<open>One pass through the body of \<^verbatim>\<open>while(core::running())\<close>.\<close>

definition iteration ::
  "'c onLoop_t \<Rightarrow> 'c onUpdate_t \<Rightarrow> u8 list \<Rightarrow> u32 \<Rightarrow> u32 \<Rightarrow> 'c stream \<Rightarrow> 'c stream" where
  "iteration onLoop onUpdate data fileSize buffSize st =
     (if offset st \<noteq> offsetPrev st \<and> offset st \<le> fileSize then
        let (b, rd) = refresh data fileSize buffSize (offset st) (offsetPrev st) (buffer st);
            (fin, c) = onUpdate (closure st) b
        in st\<lparr>buffer := b, offsetPrev := offset st, closure := c,
               result := (if fin then True else result st),
               events := events st @ [rd, EvUpdate (offset st) b]\<rparr>
      else if offset st > fileSize then st\<lparr>offset := fileSize\<rparr>
      else
        let (fin, off, c) = onLoop (closure st) (offset st)
        in st\<lparr>offset := off, closure := c,
               result := (if fin then True else result st),
               events := events st @ [EvLoop (offset st)]\<rparr>)"

text \<open>
  The loop. \<open>alive\<close> is the number of times \<^verbatim>\<open>core::running()\<close> still answers true;
  the loop also ends after an iteration that set \<open>result\<close>.
\<close>

fun provider_loop ::
  "nat \<Rightarrow> 'c onLoop_t \<Rightarrow> 'c onUpdate_t \<Rightarrow> u8 list \<Rightarrow> u32 \<Rightarrow> u32 \<Rightarrow> 'c stream \<Rightarrow> 'c stream" where
  "provider_loop 0 onLoop onUpdate data fileSize buffSize st = st"
| "provider_loop (Suc alive) onLoop onUpdate data fileSize buffSize st =
     (let st1 = iteration onLoop onUpdate data fileSize buffSize st
      in if result st1 then st1
         else provider_loop alive onLoop onUpdate data fileSize buffSize st1)"

text \<open>
  The whole function. It returns the return value, the error code it stored (if any), what
  it did to the outside and the final state of the closures.
\<close>

record 'c outcome =
  returned :: bool
  stored_errno :: "errcode option"
  trace :: "event list"
  closure_after :: 'c

definition fsDataProvider ::
  "world \<Rightarrow> nat \<Rightarrow> string \<Rightarrow> u32 \<Rightarrow> u32 \<Rightarrow> 'c onLoop_t option \<Rightarrow> 'c onUpdate_t option \<Rightarrow> 'c
     \<Rightarrow> 'c outcome" where
  "fsDataProvider w alive path off buffSize onLoop onUpdate c =
     (case (onLoop, onUpdate) of
        (Some onLoop', Some onUpdate') \<Rightarrow>
          if \<not> fsExists w path
          then \<lparr>returned = False, stored_errno = Some ENOENT, trace = [], closure_after = c\<rparr>
          else
            let fp = fopen_r w path;
                buffer_ok = malloc w (unat buffSize);
                fileSize = fsGetFileSize w path
            in (case fp of
                  Some data \<Rightarrow>
                    if buffer_ok then
                      let st = provider_loop alive onLoop' onUpdate' data fileSize buffSize
                                 \<lparr>offset = off, offsetPrev = - 1,
                                  buffer = replicate (unat buffSize) 0,
                                  result = False, closure = c, events = [EvOpen path]\<rparr>
                      in \<lparr>returned = result st, stored_errno = None, trace = events st,
                          closure_after = closure st\<rparr>
                    else \<lparr>returned = False, stored_errno = None, trace = [EvOpen path],
                          closure_after = c\<rparr>
                | None \<Rightarrow> \<lparr>returned = False, stored_errno = None, trace = [EvOpen path],
                           closure_after = c\<rparr>)
      | _ \<Rightarrow> \<lparr>returned = False, stored_errno = Some ENOTSUP, trace = [], closure_after = c\<rparr>)"

text \<open>The windows handed to \<^verbatim>\<open>onUpdate\<close>, oldest first.\<close>

fun deliveries :: "event list \<Rightarrow> (u32 \<times> u8 list) list" where
  "deliveries [] = []"
| "deliveries (EvUpdate off b # evs) = (off, b) # deliveries evs"
| "deliveries (e # evs) = deliveries evs"

text \<open>
  The window the specification asks for: the \<open>W\<close> bytes of the file from position \<open>at\<close> on,
  every position at or past the end of the file read as zero.
\<close>

definition window :: "u8 list \<Rightarrow> nat \<Rightarrow> nat \<Rightarrow> u8 list" where
  "window data W at = map (\<lambda>i. if at + i < length data then data ! (at + i) else 0) [0..<W]"


text \<open>
  A caller for stating properties of runs: \<^verbatim>\<open>onLoop\<close> seeks to the offsets of a list, one per
  call, and asks to stop when the list is used up; \<^verbatim>\<open>onUpdate\<close> never asks to stop.
\<close>

definition seek_script :: "(u32 list) onLoop_t" where
  "seek_script todo off =
     (case todo of [] \<Rightarrow> (True, off, []) | nxt # rest \<Rightarrow> (False, nxt, rest))"

definition keep_going :: "'c onUpdate_t" where
  "keep_going c b = (False, c)"

text \<open>
  The world when the process starts on a given volume: the static of fsShowProgress still
  has its initialiser \<^verbatim>\<open>-1\<close>, nothing has been displayed, no button is pressed.
\<close>

definition boot :: "(string list \<times> node) list \<Rightarrow> world" where
  "boot vol = \<lparr>files = vol, errno = ENOENT, prevProgress = - 1, display = [], ticks = [],
     buttonB = [], diskFree = 1024, heapFree = 1024, stackJunk = 0xDEADBEEF,
     dotEntries = False\<rparr>"

section \<open>DirectoryLister\<close>

record FileInfo =
  path_of :: string
  name_of :: string

record FileInfoEx = FileInfo +
  isDirectory :: bool

text \<open>\<^verbatim>\<open>std::string::c_str()\<close> as a C string: it ends at the first NUL.\<close>

definition c_str :: "string \<Rightarrow> string" where
  "c_str s = takeWhile (\<lambda>c. c \<noteq> CHR 0x00) s"

text \<open>\<^verbatim>\<open>tolower\<close> in the C locale, on the character code.\<close>

definition tolower :: "char \<Rightarrow> int" where
  "tolower c = (let n = int (of_char c) in if 65 \<le> n \<and> n \<le> 90 then n + 32 else n)"

text \<open>
  \<^verbatim>\<open>strcasecmp\<close>: the difference of the first pair of characters that differ after
  \<^verbatim>\<open>tolower\<close>; the end of a string counts as the character 0.
\<close>

fun strcasecmp :: "string \<Rightarrow> string \<Rightarrow> int" where
  "strcasecmp [] [] = 0"
| "strcasecmp [] (b # bs) = 0 - tolower b"
| "strcasecmp (a # as) [] = tolower a - 0"
| "strcasecmp (a # as) (b # bs) =
     (let d = tolower a - tolower b in if d \<noteq> 0 then d else strcasecmp as bs)"

definition fsAlphabetizeFoldersFiles :: "FileInfoEx \<Rightarrow> FileInfoEx \<Rightarrow> bool" where
  "fsAlphabetizeFoldersFiles a b =
     (if isDirectory a = isDirectory b
      then strcasecmp (c_str (name_of a)) (c_str (name_of b)) < 0
      else isDirectory a)"

text \<open>
  \<^verbatim>\<open>std::sort(first, last, comp)\<close> belongs to the C++ library. It is modelled by the insertion
  sort that the library runs on short ranges: every element is moved in front of the first
  element of the sorted part that it precedes.
\<close>

fun linear_insert :: "('a \<Rightarrow> 'a \<Rightarrow> bool) \<Rightarrow> 'a \<Rightarrow> 'a list \<Rightarrow> 'a list" where
  "linear_insert cmp v [] = [v]"
| "linear_insert cmp v (e # es) =
     (if cmp v e then v # e # es else e # linear_insert cmp v es)"

definition std_sort :: "('a \<Rightarrow> 'a \<Rightarrow> bool) \<Rightarrow> 'a list \<Rightarrow> 'a list" where
  "std_sort cmp xs = foldl (\<lambda>front v. linear_insert cmp v front) [] xs"

definition dirWithSlash :: "string \<Rightarrow> string" where
  "dirWithSlash directory =
     (let hasSlash = (directory \<noteq> [] \<and> last directory = CHR ''/'')
      in if hasSlash then directory else directory @ ''/'')"

definition fsGetDirectoryContents :: "world \<Rightarrow> string \<Rightarrow> FileInfo list" where
  "fsGetDirectoryContents w directory =
     (case opendir w (dirWithSlash directory) of
        None \<Rightarrow> []
      | Some ents \<Rightarrow>
          map (\<lambda>d_name. \<lparr>path_of = dirWithSlash directory @ d_name, name_of = d_name\<rparr>) ents)"

definition fsGetDirectoryContentsEx :: "world \<Rightarrow> string \<Rightarrow> FileInfoEx list" where
  "fsGetDirectoryContentsEx w directory =
     (case opendir w (dirWithSlash directory) of
        None \<Rightarrow> []
      | Some ents \<Rightarrow>
          std_sort fsAlphabetizeFoldersFiles
            (map (\<lambda>d_name. \<lparr>path_of = dirWithSlash directory @ d_name, name_of = d_name,
                             isDirectory = fsIsDirectory w (dirWithSlash directory @ d_name)\<rparr>)
               (filter (\<lambda>d_name. d_name \<noteq> ''.'' \<and> d_name \<noteq> ''..'') ents)))"

text \<open>
  The order the specification asks for, in its own words: directories before files and, in
  each group, the names compared as the lists of their lower-cased character codes.
\<close>

definition lowered :: "string \<Rightarrow> int list" where
  "lowered s = map tolower (c_str s)"

definition listed_before :: "FileInfoEx \<Rightarrow> FileInfoEx \<Rightarrow> bool" where
  "listed_before a b =
     (if isDirectory a = isDirectory b then lowered (name_of a) \<le> lowered (name_of b)
      else isDirectory a)"

section \<open>RecursiveOps\<close>

text \<open>\<^verbatim>\<open>s.find(pat)\<close>: the index of the first occurrence, \<open>None\<close> for \<^verbatim>\<open>npos\<close>.\<close>

fun find_str :: "string \<Rightarrow> string \<Rightarrow> nat option" where
  "find_str [] pat = (if pat = [] then Some 0 else None)"
| "find_str (c # cs) pat =
     (if take (length pat) (c # cs) = pat then Some 0 else map_option Suc (find_str cs pat))"

text \<open>The loop of the file branch of fsPathCopy (lines 222-229): final world, \<open>pos\<close>, \<open>ret\<close>.\<close>

function copy_loop ::
  "world \<Rightarrow> string \<Rightarrow> string \<Rightarrow> bool \<Rightarrow> u64 \<Rightarrow> nat \<Rightarrow> u8 list \<Rightarrow> nat \<Rightarrow> u64
     \<Rightarrow> world \<times> u64 \<times> bool" where
  "copy_loop w path dest showProgress total' l_bufsiz data fpos pos =
     (let chunk = fread data fpos l_bufsiz in
      if length chunk > 0 then
        let (w1, n) = fwrite w dest chunk;
            pos1 = pos + of_nat n
        in if showProgress then
             (let (w2, go) = fsShowProgress w1 ''Copying'' path pos1 total'
              in if \<not> go then (w2\<lparr>errno := ECANCELED\<rparr>, pos1, False)
                 else copy_loop w2 path dest showProgress total' l_bufsiz data
                        (fpos + length chunk) pos1)
           else copy_loop w1 path dest showProgress total' l_bufsiz data
                  (fpos + length chunk) pos1
      else (w, pos, True))"
  by pat_completeness auto
termination
  by (relation "measure (\<lambda>(w, path, dest, showProgress, total', l_bufsiz, data, fpos, pos).
                  length data - fpos)")
     (auto simp: fread_def)

declare copy_loop.simps [simp del]

text \<open>The loop over the children of a copied directory (lines 209-211).\<close>

fun copy_each ::
  "(world \<Rightarrow> string \<Rightarrow> string \<Rightarrow> world \<times> bool option) \<Rightarrow> world \<Rightarrow> FileInfo list \<Rightarrow> string
     \<Rightarrow> world \<times> bool option" where
  "copy_each copy w [] dest = (w, Some True)"
| "copy_each copy w (it # its) dest =
     (case copy w (path_of it) (dest @ ''/'' @ name_of it) of
        (w1, Some True) \<Rightarrow> copy_each copy w1 its dest
      | (w1, r) \<Rightarrow> (w1, r))"

text \<open>
  fsPathCopy. The first argument bounds the depth of the recursion; the answer \<open>None\<close> says
  that the bound was reached, and comes with the world as it was then.
\<close>

fun fsPathCopy :: "nat \<Rightarrow> world \<Rightarrow> string \<Rightarrow> string \<Rightarrow> bool \<Rightarrow> world \<times> bool option" where
  "fsPathCopy 0 w path dest showProgress = (w, None)"
| "fsPathCopy (Suc depth) w path dest showProgress =
     (if fsExists w dest then (w\<lparr>errno := EEXIST\<rparr>, Some False)
      else
        let (w1, go) = (if showProgress then fsShowProgress w ''Copying'' path 0 1
                        else (w, True))
        in if \<not> go then (w1\<lparr>errno := ECANCELED\<rparr>, Some False)
           else if fsIsDirectory w1 path then
             if find_str dest (path @ ''/'') \<noteq> None then (w1\<lparr>errno := ENOTSUP\<rparr>, Some False)
             else
               let (w2, made) = mkdir w1 dest
               in if \<not> made then (w2, Some False)
                  else
                    let (w3, go2) = (if showProgress
                                     then fsShowProgress w2 ''Copying'' path 1 2
                                     else (w2, True))
                    in if \<not> go2 then (w3\<lparr>errno := ECANCELED\<rparr>, Some False)
                       else copy_each (\<lambda>w' p d. fsPathCopy depth w' p d showProgress) w3
                              (fsGetDirectoryContents w3 path) dest
           else
             let total' = (ucast (fsGetFileSize w1 path) :: u64);
                 l_bufsiz = (if total' < of_nat CTRX_BUFSIZ then unat total' else CTRX_BUFSIZ);
                 buffer_ok = malloc w1 l_bufsiz;
                 fp = fopen_r w1 path;
                 (w2, fd_ok) = fopen_w w1 dest
             in case fp of
                  Some data \<Rightarrow>
                    if fd_ok \<and> buffer_ok then
                      let (w3, pos, ret) =
                            copy_loop w2 path dest showProgress total' l_bufsiz data 0 0
                      in (w3, Some (ret \<and> pos = total'))
                    else (w2, Some True)
                | None \<Rightarrow> (w2, Some True))"

text \<open>The first loop of fsCreateDummyFile (lines 274-275).\<close>

fun fill_progression :: "nat \<Rightarrow> u8 \<Rightarrow> u8 \<Rightarrow> u8 list" where
  "fill_progression 0 byte inc' = []"
| "fill_progression (Suc n) byte inc' = byte # fill_progression n (byte + inc') inc'"

text \<open>
  The second loop (lines 278-285): final world and \<open>pos\<close>. With \<open>l_bufsiz = 0\<close> and
  \<open>count < size'\<close> the source loop never ends; then the answer is \<open>None\<close>.
\<close>

partial_function (option) write_loop ::
  "world \<Rightarrow> string \<Rightarrow> bool \<Rightarrow> u8 list \<Rightarrow> u64 \<Rightarrow> u64 \<Rightarrow> nat \<Rightarrow> u64 \<Rightarrow> (world \<times> u64) option" where
  "write_loop w path showProgress buffer' size' count l_bufsiz pos =
     (if count < size' then
        let l_bufsiz1 = (if unat (size' - count) < l_bufsiz then unat (size' - count)
                         else l_bufsiz);
            (w1, n) = fwrite w path (take l_bufsiz1 buffer');
            pos1 = pos + of_nat n
        in if showProgress then
             (let (w2, go) = fsShowProgress w1 ''Generating'' path pos1 size'
              in if \<not> go then Some (w2\<lparr>errno := ECANCELED\<rparr>, pos1)
                 else write_loop w2 path showProgress buffer' size' (count + of_nat l_bufsiz1)
                        l_bufsiz1 pos1)
           else write_loop w1 path showProgress buffer' size' (count + of_nat l_bufsiz1)
                  l_bufsiz1 pos1
      else Some (w, pos))"

declare write_loop.simps [code]

definition fsCreateDummyFile ::
  "world \<Rightarrow> string \<Rightarrow> u64 \<Rightarrow> u16 \<Rightarrow> bool \<Rightarrow> (world \<times> bool) option" where
  "fsCreateDummyFile w path size' content showProgress' =
     (if fsExists w path then Some (w\<lparr>errno := EEXIST\<rparr>, False)
      else
        let showProgress = (if size' < of_nat CTRX_BUFSIZ then False else showProgress');
            w1 = (if showProgress then fst (fsShowProgress w ''Generating'' path 0 1) else w);
            l_bufsiz = (if size' < of_nat CTRX_BUFSIZ then unat size' else CTRX_BUFSIZ);
            buffer_ok = malloc w1 l_bufsiz;
            (w2, fp_ok) = fopen_w w1 path
        in if fp_ok \<and> buffer_ok then
             let buffer' =
                   (if content AND 0xFF00 \<noteq> 0
                    then fill_progression l_bufsiz (ucast (content AND 0xFF))
                           (ucast (drop_bit 8 content AND 0xFF))
                    else replicate l_bufsiz (ucast content))
             in case write_loop w2 path showProgress buffer' size' 0 l_bufsiz 0 of
                  None \<Rightarrow> None
                | Some (w3, pos) \<Rightarrow> Some (w3, pos = size')
           else Some (w2, False))"

text \<open>
  What the loop of the provider keeps true (used in the proofs): the buffer has its size and
  is still the zeroed buffer of \<^verbatim>\<open>calloc\<close>, or holds the window at \<open>offsetPrev\<close>; every
  window handed over so far was the window of the specification.
\<close>

definition window_inv :: "u8 list \<Rightarrow> u32 \<Rightarrow> u32 \<Rightarrow> 'c stream \<Rightarrow> bool" where
  "window_inv data fileSize buffSize st =
     (length (buffer st) = unat buffSize \<and>
      ((offsetPrev st = - 1 \<and> buffer st = replicate (unat buffSize) 0) \<or>
       (offsetPrev st \<le> fileSize \<and> buffer st = window data (unat buffSize) (unat (offsetPrev st)))) \<and>
      list_all (\<lambda>(off, b). b = window data (unat buffSize) (unat off)) (deliveries (events st)))"

section \<open>Proofs: buffers and windows\<close>

lemma length_window [simp]: "length (window data W at) = W"
  by (simp add: window_def)

lemma nth_window: "i < W \<Longrightarrow> window data W at ! i = (if at + i < length data then data ! (at + i) else 0)"
  by (simp add: window_def)

lemma window_eqI:
  "length buf = W \<Longrightarrow> (\<And>i. i < W \<Longrightarrow> buf ! i = (if at + i < length data then data ! (at + i) else 0))
   \<Longrightarrow> buf = window data W at"
  by (rule nth_equalityI) (simp_all add: nth_window)

lemma length_store: "at + length bytes \<le> length buf \<Longrightarrow> length (store buf at bytes) = length buf"
  by (simp add: store_def)

lemma nth_store:
  "at + length bytes \<le> length buf \<Longrightarrow> i < length buf \<Longrightarrow>
   store buf at bytes ! i = (if at \<le> i \<and> i < at + length bytes then bytes ! (i - at) else buf ! i)"
  by (auto simp: store_def nth_append)

text \<open>The two branches of the refresh, on natural numbers.\<close>

lemma backward_nat:
  assumes "length buf = w" "at < p" 
    and "(at + w \<le> p \<and> (\<forall>i<w. buf ! i = 0)) \<or> 
         (p \<le> length data \<and> (\<forall>i<w. buf ! i = (if p + i < length data then data ! (p + i) else 0)))"
    and "ov = at + w - p" "at \<le> length data"
  shows "store (memmove buf (w - ov) 0 ov) 0 (fread data at (w - ov)) = window data w at"
proof (rule window_eqI)
  have ov: "ov \<le> w" using assms by simp
  have l1: "length (memmove buf (w - ov) 0 ov) = w"
    using assms ov by (simp add: memmove_def length_store)
  show "length (store (memmove buf (w - ov) 0 ov) 0 (fread data at (w - ov))) = w"
    using l1 by (simp add: length_store fread_def)
  fix i assume i: "i < w"
  show "store (memmove buf (w - ov) 0 ov) 0 (fread data at (w - ov)) ! i = 
     (if at + i < length data then data ! (at + i) else 0)"
    using i l1 ov assms
    apply (simp add: nth_store nth_window fread_def memmove_def length_store)
    apply (auto simp: nth_window add.commute)
    done
qed

lemma nth_memmove:
  "src + n \<le> length buf \<Longrightarrow> dst + n \<le> length buf \<Longrightarrow> i < length buf \<Longrightarrow>
   memmove buf dst src n ! i = (if dst \<le> i \<and> i < dst + n then buf ! (src + (i - dst)) else buf ! i)"
  by (auto simp: memmove_def nth_store)

lemma length_memmove:
  "src + n \<le> length buf \<Longrightarrow> dst + n \<le> length buf \<Longrightarrow> length (memmove buf dst src n) = length buf"
  by (simp add: memmove_def length_store)

lemma nth_memset:
  "at + n \<le> length buf \<Longrightarrow> i < length buf \<Longrightarrow>
   memset buf at v n ! i = (if at \<le> i \<and> i < at + n then v else buf ! i)"
  by (auto simp: memset_def nth_store)

lemma length_memset:
  "at + n \<le> length buf \<Longrightarrow> length (memset buf at v n) = length buf"
  by (simp add: memset_def length_store)

lemma length_fread: "length (fread data pos n) = min n (length data - pos)"
  by (simp add: fread_def)

lemma nth_fread: "i < n \<Longrightarrow> pos + i < length data \<Longrightarrow> fread data pos n ! i = data ! (pos + i)"
  by (simp add: fread_def)

lemma forward_nat:
  assumes lb: "length buf = w" and lt: "p < at" 
    and p: "p \<le> length data" 
    and inv: "\<And>i. i < w \<Longrightarrow> buf ! i = (if p + i < length data then data ! (p + i) else 0)"
    and ov: "ov = p + w - at" and at: "at \<le> length data"
    and b2: "b2 = (if at + w > length data then memset (memmove buf 0 (w - ov) ov) ov 0 (w - ov) else memmove buf 0 (w - ov) ov)"
  shows "store b2 ov (fread data (at + ov) (w - ov)) = window data w at"
proof (rule window_eqI)
  have ovw: "ov \<le> w" using ov lt by simp
  have l1: "length (memmove buf 0 (w - ov) ov) = w"
    using lb ovw by (simp add: length_memmove)
  have l2: "length b2 = w" using b2 l1 ovw by (simp add: length_memset)
  have lg: "ov + length (fread data (at + ov) (w - ov)) \<le> w"
    using ovw by (simp add: length_fread)
  show "length (store b2 ov (fread data (at + ov) (w - ov))) = w"
    using l2 lg by (simp add: length_store)
  fix i assume i: "i < w"
  have n1: "memmove buf 0 (w - ov) ov ! i = (if i < ov then buf ! (w - ov + i) else buf ! i)"
    using i lb ovw by (simp add: nth_memmove)
  have n2: "b2 ! i = (if length data < at + w \<and> ov \<le> i then 0 else memmove buf 0 (w - ov) ov ! i)"
    using i l1 ovw b2 by (simp add: nth_memset)
  have n3: "store b2 ov (fread data (at + ov) (w - ov)) ! i = 
     (if ov \<le> i \<and> i < ov + length (fread data (at + ov) (w - ov)) then fread data (at + ov) (w - ov) ! (i - ov) else b2 ! i)"
    using i l2 lg by (simp add: nth_store)
  show "store b2 ov (fread data (at + ov) (w - ov)) ! i = 
     (if at + i < length data then data ! (at + i) else 0)"
  proof (cases "i < ov")
    case True
    then have "w - ov + i < w" using ovw i by simp
    then have "buf ! (w - ov + i) = (if p + (w - ov + i) < length data then data ! (p + (w - ov + i)) else 0)"
      by (rule inv)
    moreover have "p + (w - ov + i) = at + i" using ov True lt by simp
    ultimately have "buf ! (w - ov + i) = (if at + i < length data then data ! (at + i) else 0)"
      by (simp only:)
    then show ?thesis using True n1 n2 n3 by simp
  next
    case False
    show ?thesis
    proof (cases "at + i < length data")
      case True
      then have "i < ov + length (fread data (at + ov) (w - ov))"
        using False i ovw by (simp add: length_fread)
      moreover have "fread data (at + ov) (w - ov) ! (i - ov) = data ! (at + ov + (i - ov))"
        using False i True by (intro nth_fread) simp_all
      ultimately show ?thesis using False True n3 by simp
    next
      case nin: False
      then have a: "\<not> i < ov + length (fread data (at + ov) (w - ov))"
        using False by (simp add: length_fread)
      show ?thesis
      proof (cases "length data < at + w")
        case True
        then show ?thesis using a n3 n2 False nin by simp
      next
        case False
        then show ?thesis using nin i by simp
      qed
    qed
  qed
qed

lemma unat_overlap:
  fixes a b :: u32
  assumes "unat a + unat b < 2 ^ 32"
  shows "unat (if a + b > c then a + b - c else 0) = unat a + unat b - unat c"
proof -
  have s: "unat (a + b) = unat a + unat b"
    using assms by (simp add: unat_add_lem [THEN iffD1])
  show ?thesis
  proof (cases "a + b > c")
    case True
    then have "c \<le> a + b" by simp
    then have "unat (a + b - c) = unat (a + b) - unat c" by (rule unat_sub)
    then show ?thesis using True s by simp
  next
    case False
    then have "unat (a + b) \<le> unat c" by (simp add: word_less_nat_alt not_less)
    then show ?thesis using False s by simp
  qed
qed

lemma refresh_window:
  fixes W off offPrev fileSize :: u32
  assumes S: "length data < 2 ^ 32" and fs: "fileSize = of_nat (length data)"
    and ow: "unat off + unat W < 2 ^ 32"
    and pw: "offPrev < off \<Longrightarrow> unat offPrev + unat W < 2 ^ 32"
    and lb: "length buf = unat W"
    and inv: "(offPrev = - 1 \<and> buf = replicate (unat W) 0) \<or>
              (offPrev \<le> fileSize \<and> buf = window data (unat W) (unat offPrev))"
    and ne: "off \<noteq> offPrev" and le: "off \<le> fileSize"
  shows "fst (refresh data fileSize W off offPrev buf) = window data (unat W) (unat off)"
proof -
  have uS: "unat fileSize = length data"
    using S fs by (simp add: unat_of_nat)
  have o: "unat off \<le> length data" using le uS by (simp add: word_le_nat_alt)
  show ?thesis
  proof (cases "off < offPrev")
    case True
    define ov where "ov = (if off + W > offPrev then off + W - offPrev else 0)"
    have uov: "unat ov = unat off + unat W - unat offPrev"
      unfolding ov_def using ow by (rule unat_overlap)
    have lt: "unat off < unat offPrev" using True by (simp add: word_less_nat_alt)
    have "unat ov \<le> unat W" using uov lt by simp
    then have "ov \<le> W" by (simp add: word_le_nat_alt)
    then have uw: "unat (W - ov) = unat W - unat ov" by (rule unat_sub)
    have pre: "(unat off + unat W \<le> unat offPrev \<and> (\<forall>i<unat W. buf ! i = 0)) \<or>
       (unat offPrev \<le> length data \<and>
        (\<forall>i<unat W. buf ! i = (if unat offPrev + i < length data then data ! (unat offPrev + i) else 0)))"
      using inv
    proof
      assume a: "offPrev = - 1 \<and> buf = replicate (unat W) 0"
      then have "unat offPrev = 2 ^ 32 - 1" by (simp add: unsigned_minus_1_eq_mask mask_eq_exp_minus_1)
      then show ?thesis using a ow by simp
    next
      assume a: "offPrev \<le> fileSize \<and> buf = window data (unat W) (unat offPrev)"
      then have "unat offPrev \<le> length data" using uS by (simp add: word_le_nat_alt)
      moreover have "\<forall>i<unat W. buf ! i = (if unat offPrev + i < length data then data ! (unat offPrev + i) else 0)"
        using a nth_window [of _ "unat W" data "unat offPrev"] by auto
      ultimately show ?thesis by blast
    qed
    have "store (memmove buf (unat W - unat ov) 0 (unat ov)) 0 (fread data (unat off) (unat W - unat ov))
          = window data (unat W) (unat off)"
      using lb lt pre uov o by (rule backward_nat)
    then show ?thesis
      using True uw by (simp add: refresh_def Let_def ov_def [symmetric])
  next
    case False
    then have lt: "unat offPrev < unat off" using ne
      by (metis linorder_neqE_nat word_unat_eq_iff word_less_nat_alt)  
    have "unat off < 2 ^ 32" using unsigned_less [of off] by simp
    then have np: "offPrev \<noteq> - 1" using lt
      by (auto simp: unsigned_minus_1_eq_mask mask_eq_exp_minus_1)
    then have pS: "offPrev \<le> fileSize" and b: "buf = window data (unat W) (unat offPrev)"
      using inv by auto
    have p: "unat offPrev \<le> length data" using pS uS by (simp add: word_le_nat_alt)
    have pw: "unat offPrev + unat W < 2 ^ 32" using lt pw by (simp add: word_less_nat_alt)
    define ov where "ov = (if offPrev + W > off then offPrev + W - off else 0)"
    have uov: "unat ov = unat offPrev + unat W - unat off"
      unfolding ov_def using pw by (rule unat_overlap)
    have "unat ov \<le> unat W" using uov lt by simp
    then have "ov \<le> W" by (simp add: word_le_nat_alt)
    then have uw: "unat (W - ov) = unat W - unat ov" by (rule unat_sub)
    have uoo: "unat (off + ov) = unat off + unat ov"
      using uov lt ow by (simp add: unat_add_lem [THEN iffD1])
    have de: "(off + W > fileSize) = (unat off + unat W > length data)"
      using ow uS by (simp add: word_less_nat_alt unat_add_lem [THEN iffD1])
    have pt: "\<And>i. i < unat W \<Longrightarrow> buf ! i = (if unat offPrev + i < length data then data ! (unat offPrev + i) else 0)"
      using b nth_window [of _ "unat W" data "unat offPrev"] by auto
    define b2 where "b2 = (if unat off + unat W > length data 
        then memset (memmove buf 0 (unat W - unat ov) (unat ov)) (unat ov) 0 (unat W - unat ov) 
        else memmove buf 0 (unat W - unat ov) (unat ov))"
    have "store b2 (unat ov) (fread data (unat off + unat ov) (unat W - unat ov)) = window data (unat W) (unat off)"
      using lb lt p pt uov o b2_def by (rule forward_nat)
    then show ?thesis
      using False uw uoo de
      by (simp add: refresh_def Let_def ov_def [symmetric] b2_def split: if_splits)
  qed
qed

section \<open>Proofs: the loop of the provider\<close>

lemma deliveries_append: "deliveries (xs @ ys) = deliveries xs @ deliveries ys"
  by (induction xs rule: deliveries.induct) simp_all

lemma refresh_read: "\<exists>p n. snd (refresh data fileSize W off offPrev buf) = EvRead p n"
  by (simp add: refresh_def Let_def)

lemma iteration_update:
  assumes "offset st \<noteq> offsetPrev st" "offset st \<le> fileSize"
    and "fst (refresh data fileSize W (offset st) (offsetPrev st) (buffer st)) = b"
  shows "buffer (iteration onLoop onUpdate data fileSize W st) = b"
    "offsetPrev (iteration onLoop onUpdate data fileSize W st) = offset st"
    "offset (iteration onLoop onUpdate data fileSize W st) = offset st"
    "deliveries (events (iteration onLoop onUpdate data fileSize W st)) =
       deliveries (events st) @ [(offset st, b)]"
    "closure (iteration onLoop onUpdate data fileSize W st) = snd (onUpdate (closure st) b)"
    "result (iteration onLoop onUpdate data fileSize W st) = (fst (onUpdate (closure st) b) \<or> result st)"
proof -
  obtain p n where "snd (refresh data fileSize W (offset st) (offsetPrev st) (buffer st)) = EvRead p n"
    using refresh_read by blast
  then have r: "refresh data fileSize W (offset st) (offsetPrev st) (buffer st) = (b, EvRead p n)"
    using assms(3) by (metis prod.collapse)
  show "buffer (iteration onLoop onUpdate data fileSize W st) = b"
    "offsetPrev (iteration onLoop onUpdate data fileSize W st) = offset st"
    "offset (iteration onLoop onUpdate data fileSize W st) = offset st"
    "deliveries (events (iteration onLoop onUpdate data fileSize W st)) =
       deliveries (events st) @ [(offset st, b)]"
    "closure (iteration onLoop onUpdate data fileSize W st) = snd (onUpdate (closure st) b)"
    "result (iteration onLoop onUpdate data fileSize W st) = (fst (onUpdate (closure st) b) \<or> result st)"
    using assms(1,2) r
    by (auto simp: iteration_def deliveries_append split: prod.splits)
qed


lemma iteration_idle:
  assumes "offset st = offsetPrev st" "offset st \<le> fileSize"
  shows "iteration onLoop onUpdate data fileSize W st =
     (case onLoop (closure st) (offset st) of (fin, off, c) \<Rightarrow>
        st\<lparr>offset := off, closure := c, result := (if fin then True else result st),
           events := events st @ [EvLoop (offset st)]\<rparr>)"
  using assms by (auto simp: iteration_def split: prod.splits)



lemma fopen_r_size: "fopen_r w path = Some data \<Longrightarrow> fsGetFileSize w path = of_nat (length data)"
  by (auto simp: fopen_r_def fsGetFileSize_def stat_def split: option.splits node.splits)

lemma fopen_r_exists: "fopen_r w path = Some data \<Longrightarrow> fsExists w path"
  by (simp add: fsExists_def)


lemma window_take: "at + W \<le> length data \<Longrightarrow> window data W at = take W (drop at data)"
  by (rule sym, rule window_eqI) simp_all

lemma iteration_idle_fields:
  assumes "offset st = offsetPrev st" "offset st \<le> fileSize"
    and "onLoop (closure st) (offset st) = (fin, off, c)"
  shows "offset (iteration onLoop onUpdate data fileSize W st) = off"
    "offsetPrev (iteration onLoop onUpdate data fileSize W st) = offsetPrev st"
    "buffer (iteration onLoop onUpdate data fileSize W st) = buffer st"
    "closure (iteration onLoop onUpdate data fileSize W st) = c"
    "result (iteration onLoop onUpdate data fileSize W st) = (fin \<or> result st)"
    "deliveries (events (iteration onLoop onUpdate data fileSize W st)) = deliveries (events st)"
  using assms by (simp_all add: iteration_idle deliveries_append)

lemma window_inv_init:
  "window_inv data fileSize W
     \<lparr>offset = off, offsetPrev = - 1, buffer = replicate (unat W) 0,
      result = False, closure = c, events = [EvOpen path]\<rparr>"
  by (simp add: window_inv_def)

lemma round_trip_aux:
  fixes W k :: u32
  assumes S: "length data < 2 ^ 32" and W: "unat W < length data"
    and k0: "0 < k" and k: "unat k < length data - unat W"
    and fs: "fileSize = of_nat (length data)"
    and st0: "st0 = \<lparr>offset = 0, offsetPrev = - 1, buffer = replicate (unat W) 0,
      result = False, closure = [k, 0], events = [EvOpen path]\<rparr>"
  defines "step \<equiv> iteration seek_script keep_going data fileSize W"
  shows "deliveries (events (step (step (step (step (step (step st0)))))))
       = [(0, take (unat W) data), (k, take (unat W) (drop (unat k) data)), (0, take (unat W) data)]"
    and "result (step (step (step (step (step (step st0))))))"
    and "\<not> result (step (step (step (step (step st0)))))"
    and "\<not> result (step (step (step (step st0))))"
    and "\<not> result (step (step (step st0)))"
    and "\<not> result (step (step st0))"
    and "\<not> result (step st0)"
proof -
  have uS: "unat fileSize = length data" using S fs by (simp add: unat_of_nat)
  have kS: "k \<le> fileSize" using k uS by (simp add: word_le_nat_alt)
  have zS: "0 \<le> fileSize" by simp
  have kW: "unat k + unat W < 2 ^ 32" using k S by simp
  have w0: "window data (unat W) 0 = take (unat W) data"
    using W by (simp add: window_take)
  have wk: "window data (unat W) (unat k) = take (unat W) (drop (unat k) data)"
    using k by (simp add: window_take)
  \<comment> \<open>first fill\<close>
  define st1 where "st1 = step st0"
  have r1: "fst (refresh data fileSize W (offset st0) (offsetPrev st0) (buffer st0)) = take (unat W) data"
    using S fs W unsigned_less [of W] refresh_window [of data fileSize 0 W "- 1" "replicate (unat W) 0"]
    by (simp add: st0 w0)
  have n0: "offset st0 \<noteq> offsetPrev st0" "offset st0 \<le> fileSize" by (simp_all add: st0)
  note u1 = iteration_update [OF n0 r1, of seek_script keep_going, folded step_def st1_def]
  have f1: "offset st1 = 0" "offsetPrev st1 = 0" "buffer st1 = take (unat W) data"
    "closure st1 = [k, 0]" "\<not> result st1"
    "deliveries (events st1) = [(0, take (unat W) data)]"
    using u1 by (simp_all add: st0 keep_going_def)
  \<comment> \<open>the caller seeks to k\<close>
  define st2 where "st2 = step st1"
  have i1: "offset st1 = offsetPrev st1" "offset st1 \<le> fileSize"
    "seek_script (closure st1) (offset st1) = (False, k, [0])"
    using f1 by (simp_all add: seek_script_def)
  note u2 = iteration_idle_fields [where onLoop = seek_script and onUpdate = keep_going and data = data and W = W, OF i1, folded step_def st2_def]
  have f2: "offset st2 = k" "offsetPrev st2 = 0" "buffer st2 = take (unat W) data"
    "closure st2 = [0]" "\<not> result st2"
    "deliveries (events st2) = [(0, take (unat W) data)]"
    using u2 f1 by simp_all
  \<comment> \<open>forward refresh\<close>
  define st3 where "st3 = step st2"
  have r3: "fst (refresh data fileSize W (offset st2) (offsetPrev st2) (buffer st2)) = take (unat W) (drop (unat k) data)"
    using S fs kW kS k0 unsigned_less [of W] 
      refresh_window [of data fileSize k W 0 "take (unat W) data"] W
    by (simp add: f2 w0 wk)
  have n2: "offset st2 \<noteq> offsetPrev st2" "offset st2 \<le> fileSize" using f2 k0 kS by simp_all
  note u3 = iteration_update [OF n2 r3, of seek_script keep_going, folded step_def st3_def]
  have f3: "offset st3 = k" "offsetPrev st3 = k" "buffer st3 = take (unat W) (drop (unat k) data)"
    "closure st3 = [0]" "\<not> result st3"
    "deliveries (events st3) = [(0, take (unat W) data), (k, take (unat W) (drop (unat k) data))]"
    using u3 f2 by (simp_all add: keep_going_def)
  \<comment> \<open>the caller seeks back to 0\<close>
  define st4 where "st4 = step st3"
  have i3: "offset st3 = offsetPrev st3" "offset st3 \<le> fileSize"
    "seek_script (closure st3) (offset st3) = (False, 0, [])"
    using f3 kS by (simp_all add: seek_script_def)
  note u4 = iteration_idle_fields [where onLoop = seek_script and onUpdate = keep_going and data = data and W = W, OF i3, folded step_def st4_def]
  have f4: "offset st4 = 0" "offsetPrev st4 = k" "buffer st4 = take (unat W) (drop (unat k) data)"
    "closure st4 = []" "\<not> result st4"
    "deliveries (events st4) = [(0, take (unat W) data), (k, take (unat W) (drop (unat k) data))]"
    using u4 f3 by simp_all
  \<comment> \<open>backward refresh\<close>
  define st5 where "st5 = step st4"
  have kn: "k \<noteq> 0" using k0 by auto
  have mn: "min (length data - unat k) (unat W) = unat W" using k by simp
  have r5: "fst (refresh data fileSize W (offset st4) (offsetPrev st4) (buffer st4)) = take (unat W) data"
    using S fs kW kS k0 kn mn 
      refresh_window [of data fileSize 0 W k "take (unat W) (drop (unat k) data)"] W
    by (simp add: f4 w0 wk)
  have n4: "offset st4 \<noteq> offsetPrev st4" "offset st4 \<le> fileSize" using f4 k0 by auto
  note u5 = iteration_update [OF n4 r5, of seek_script keep_going, folded step_def st5_def]
  have f5: "offset st5 = 0" "offsetPrev st5 = 0" 
    "closure st5 = []" "\<not> result st5"
    "deliveries (events st5) = [(0, take (unat W) data), (k, take (unat W) (drop (unat k) data)), (0, take (unat W) data)]"
    using u5 f4 by (simp_all add: keep_going_def)
  \<comment> \<open>the caller stops\<close>
  define st6 where "st6 = step st5"
  have i5: "offset st5 = offsetPrev st5" "offset st5 \<le> fileSize"
    "seek_script (closure st5) (offset st5) = (True, 0, [])"
    using f5 by (simp_all add: seek_script_def)
  note u6 = iteration_idle_fields [where onLoop = seek_script and onUpdate = keep_going and data = data and W = W, OF i5, folded step_def st6_def]
  have f6: "result st6"
    "deliveries (events st6) = [(0, take (unat W) data), (k, take (unat W) (drop (unat k) data)), (0, take (unat W) data)]"
    using u6 f5 by simp_all
  show "deliveries (events (step (step (step (step (step (step st0)))))))
       = [(0, take (unat W) data), (k, take (unat W) (drop (unat k) data)), (0, take (unat W) data)]"
    and "result (step (step (step (step (step (step st0))))))"
    and "\<not> result (step (step (step (step (step st0)))))"
    and "\<not> result (step (step (step (step st0))))"
    and "\<not> result (step (step (step st0)))"
    and "\<not> result (step (step st0))"
    and "\<not> result (step st0)"
    using f1 f2 f3 f4 f5 f6 
    by (simp_all add: st1_def st2_def st3_def st4_def st5_def st6_def)
qed




lemma window_zero_tail:
  "b = window data W at \<Longrightarrow> \<forall>i<W. length data \<le> at + i \<longrightarrow> b ! i = 0"
  by (simp add: nth_window)








section \<open>The claims about the stream provider\<close>




text \<open>
  Claim C2. Round trip of the overlap reuse: for a file of size \<open>S\<close> (a size that fits the
  \<^verbatim>\<open>u32\<close> of \<^verbatim>\<open>fileSize\<close>) and a window \<open>W < S\<close>, a run that starts at offset 0, is sent
  forward by \<^verbatim>\<open>onLoop\<close> to an offset \<open>k\<close> with \<open>0 < k < S - W\<close> and then back to 0 hands
  three windows to \<^verbatim>\<open>onUpdate\<close>, and the third is byte for byte the first one, the first
  \<open>W\<close> bytes of the file. The run needs the six iterations it consists of and a buffer that
  can be allocated; it then returns true, because the caller asked to stop.
\<close>

theorem round_trip:
  fixes W k :: u32
  assumes f: "fopen_r w path = Some data" and S: "length data < 2 ^ 32"
    and W: "unat W < length data" and m: "malloc w (unat W)"
    and k0: "0 < k" and k: "unat k < length data - unat W" and a: "6 \<le> alive"
  shows "returned (fsDataProvider w alive path 0 W (Some seek_script) (Some keep_going) [k, 0]) \<and>
     deliveries (trace (fsDataProvider w alive path 0 W (Some seek_script) (Some keep_going) [k, 0]))
       = [(0, take (unat W) data), (k, take (unat W) (drop (unat k) data)),
          (0, take (unat W) data)]"
proof -
  obtain n where "alive = 6 + n"
    using a by (auto simp: le_iff_add)
  then have n: "alive = Suc (Suc (Suc (Suc (Suc (Suc n)))))"
    by simp
  note aux = round_trip_aux [OF S W k0 k refl refl, of path]
  show ?thesis
    using f m aux
    by (simp add: fsDataProvider_def fopen_r_exists fopen_r_size n Let_def)
qed

theorem round_trip_witness:
  "fopen_r (boot [([''f''], File [1, 2, 3, 4, 5, 6, 7])]) ''/f'' = Some [1, 2, 3, 4, 5, 6, 7] \<and>
   length [1, 2, 3, 4, 5, 6, 7 :: u8] < 2 ^ 32 \<and>
   unat (3 :: u32) < length [1, 2, 3, 4, 5, 6, 7 :: u8] \<and>
   malloc (boot [([''f''], File [1, 2, 3, 4, 5, 6, 7])]) (unat (3 :: u32)) \<and>
   (0 :: u32) < 2 \<and> unat (2 :: u32) < length [1, 2, 3, 4, 5, 6, 7 :: u8] - unat (3 :: u32) \<and>
   (6 :: nat) \<le> 8 \<and>
   returned (fsDataProvider (boot [([''f''], File [1, 2, 3, 4, 5, 6, 7])]) 8 ''/f'' 0 3
      (Some seek_script) (Some keep_going) [2, 0]) \<and>
   deliveries (trace (fsDataProvider (boot [([''f''], File [1, 2, 3, 4, 5, 6, 7])]) 8 ''/f'' 0 3
      (Some seek_script) (Some keep_going) [2, 0])) =
     [(0, [1, 2, 3]), (2, [3, 4, 5]), (0, [1, 2, 3])]"
proof -
  have h1: "fopen_r (boot [([''f''], File [1, 2, 3, 4, 5, 6, 7])]) ''/f'' = Some [1, 2, 3, 4, 5, 6, 7]"
    by code_simp
  have h2: "length [1, 2, 3, 4, 5, 6, 7 :: u8] < 2 ^ 32"
    by simp
  have h3: "unat (3 :: u32) < length [1, 2, 3, 4, 5, 6, 7 :: u8]"
    by simp
  have h4: "malloc (boot [([''f''], File [1, 2, 3, 4, 5, 6, 7])]) (unat (3 :: u32))"
    by (simp add: malloc_def boot_def)
  have h5: "(0 :: u32) < 2"
    by simp
  have h6: "unat (2 :: u32) < length [1, 2, 3, 4, 5, 6, 7 :: u8] - unat (3 :: u32)"
    by simp
  have h7: "(6 :: nat) \<le> 8"
    by simp
  show ?thesis
    using h1 h2 h3 h4 h5 h6 h7 round_trip [OF h1 h2 h3 h4 h5 h6 h7]
    by simp
qed




text \<open>
  Claim C6. Preconditions of fsDataProvider, in the order the code checks them: when
  \<^verbatim>\<open>onLoop\<close> or \<^verbatim>\<open>onUpdate\<close> is absent it returns false and stores \<^verbatim>\<open>ENOTSUP\<close>; when both
  are there and the path does not exist it returns false and stores \<^verbatim>\<open>ENOENT\<close>. In both cases
  the trace is empty: no file was opened, nothing was read, no callback was called, and the
  state of the closures is what it was.
\<close>

theorem provider_preconditions:
  "(onLoop = None \<or> onUpdate = None \<longrightarrow>
      fsDataProvider w alive path off buffSize onLoop onUpdate c =
        \<lparr>returned = False, stored_errno = Some ENOTSUP, trace = [], closure_after = c\<rparr>) \<and>
   (onLoop \<noteq> None \<and> onUpdate \<noteq> None \<and> \<not> fsExists w path \<longrightarrow>
      fsDataProvider w alive path off buffSize onLoop onUpdate c =
        \<lparr>returned = False, stored_errno = Some ENOENT, trace = [], closure_after = c\<rparr>)"
  by (auto simp: fsDataProvider_def split: option.splits)

theorem provider_preconditions_witness:
  "fsDataProvider (boot []) 7 ''/gone'' 0 4 None (Some keep_going) [1 :: u32] =
     \<lparr>returned = False, stored_errno = Some ENOTSUP, trace = [], closure_after = [1]\<rparr> \<and>
   \<not> fsExists (boot []) ''/gone'' \<and>
   fsDataProvider (boot []) 7 ''/gone'' 0 4 (Some seek_script) (Some keep_going) [1] =
     \<lparr>returned = False, stored_errno = Some ENOENT, trace = [], closure_after = [1]\<rparr>"
proof -
  have h: "\<not> fsExists (boot []) ''/gone''"
    by code_simp
  show ?thesis
    using h provider_preconditions [of None "Some keep_going" "boot []" 7 "''/gone''" 0 4 "[1 :: u32]"]
      provider_preconditions [of "Some seek_script" "Some keep_going" "boot []" 7 "''/gone''" 0 4 "[1]"]
    by simp
qed

end
